theory Spec2Isabelle
  imports Main
begin

section \<open>Go types as the generator sees them\<close>

text \<open>
  The generator receives \<^verbatim>\<open>reflect.Type\<close> values. A Go type graph may be cyclic (a struct
  with a pointer to itself), so a struct type is represented by its name and its fields are
  looked up in a table of declarations.
\<close>

datatype int_kind =
  KInt | KInt8 | KInt16 | KInt32 | KInt64 | KUint | KUint8 | KUint16 | KUint32 | KUint64

datatype float_kind = KFloat32 | KFloat64

datatype gotype =
    TBool
  | TInt int_kind
  | TFloat float_kind
  | TString
  | TTime
  | TPtr gotype
  | TSlice gotype
  | TArray nat gotype
  | TMap gotype gotype
  | TInterface
  | TStruct string
  | TOther string

text \<open>\<^verbatim>\<open>types.RouteInfo\<close>: the handler is never read by the generator and is left out.\<close>

record RouteInfo =
  Method :: string
  Path :: string
  RequestType :: "gotype option"
  ResponseType :: "gotype option"
  Module :: string
  Summary :: string

section \<open>Schemas kept in the components table\<close>

text \<open>
  Modelled from the spec: the schema fragments (TypeSchema) that the missing
  \<^verbatim>\<open>generateTypeSchema\<close> produces; the sources only show them as values of
  \<^verbatim>\<open>map[string]interface{}\<close>. \<open>SString\<close> is \<^verbatim>\<open>{type: string}\<close>, \<open>SDateTime\<close> is \<^verbatim>\<open>{type: string, format: date-time}\<close>,
  \<open>SArray s\<close> is \<^verbatim>\<open>{type: array, items: s}\<close>, \<open>SMapAny\<close> is
  \<^verbatim>\<open>{type: object, additionalProperties: true}\<close>, \<open>SMapOf s\<close> its typed-values variant,
  \<open>SObject ps req\<close> is \<^verbatim>\<open>{type: object, properties: ps, required: req}\<close>, \<open>SOpaque\<close> is
  the bare \<^verbatim>\<open>{type: object}\<close> and \<open>SRef n\<close> is a reference to the components schema \<open>n\<close>.
\<close>

datatype schema =
    SString
  | SInteger
  | SNumber
  | SBoolean
  | SDateTime
  | SArray schema
  | SMapAny
  | SMapOf schema
  | SObject "(string \<times> schema) list" "string list"
  | SOpaque
  | SRef string

text \<open>
  Modelled from the spec: what the cache holds under a name, a placeholder while the type is
  being reflected and the completed schema afterwards.
\<close>

datatype entry = Placeholder | Completed schema

section \<open>The string functions of Go's standard library that the generator calls\<close>

text \<open>
  Strings are byte lists. \<^verbatim>\<open>strings.ToUpper\<close> and \<^verbatim>\<open>strings.ToLower\<close> are modelled on the
  ASCII letters, where they agree with Go; every other byte is left as it is, while Go also
  maps the letters outside ASCII, which are several bytes each.
\<close>

definition lower_letters :: string where
  "lower_letters = ''abcdefghijklmnopqrstuvwxyz''"

definition upper_letters :: string where
  "upper_letters = ''ABCDEFGHIJKLMNOPQRSTUVWXYZ''"

definition upper_char :: "char \<Rightarrow> char" where
  "upper_char c = (case map_of (zip lower_letters upper_letters) c of None \<Rightarrow> c | Some u \<Rightarrow> u)"

definition lower_char :: "char \<Rightarrow> char" where
  "lower_char c = (case map_of (zip upper_letters lower_letters) c of None \<Rightarrow> c | Some l \<Rightarrow> l)"

definition ToUpper :: "string \<Rightarrow> string" where
  "ToUpper s = map upper_char s"

definition ToLower :: "string \<Rightarrow> string" where
  "ToLower s = map lower_char s"

text \<open>\<^verbatim>\<open>strings.Trim(s, cutset)\<close> removes the leading and trailing bytes that occur in the cutset.\<close>

definition Trim :: "string \<Rightarrow> string \<Rightarrow> string" where
  "Trim s cutset = rev (dropWhile (\<lambda>c. c \<in> set cutset) (rev (dropWhile (\<lambda>c. c \<in> set cutset) s)))"

text \<open>
  \<^verbatim>\<open>strings.Split(s, sep)\<close> for a one-byte separator, the only way the generator calls it.
  The result is never empty: the empty string splits into one empty piece.
\<close>

fun Split :: "string \<Rightarrow> char \<Rightarrow> string list" where
  "Split [] sep = [[]]"
| "Split (c # cs) sep =
     (if c = sep then [] # Split cs sep
      else (case Split cs sep of [] \<Rightarrow> [[c]] | p # ps \<Rightarrow> (c # p) # ps))"

fun HasPrefix :: "string \<Rightarrow> string \<Rightarrow> bool" where
  "HasPrefix s [] = True"
| "HasPrefix [] (p # ps) = False"
| "HasPrefix (c # cs) (p # ps) = (c = p \<and> HasPrefix cs ps)"

fun Contains :: "string \<Rightarrow> string \<Rightarrow> bool" where
  "Contains [] substr = (substr = [])"
| "Contains (c # cs) substr = (HasPrefix (c # cs) substr \<or> Contains cs substr)"

text \<open>
  \<^verbatim>\<open>strings.Title\<close> upper-cases every letter that follows a separator, starting as if a space
  came before the string. ASCII letters, digits and the underscore are no separators, every
  other ASCII byte is one; bytes outside ASCII are taken as letters.
\<close>

definition isSeparator :: "char \<Rightarrow> bool" where
  "isSeparator c = (\<not> digit7 c \<and> c \<notin> set (''0123456789_'' @ lower_letters @ upper_letters))"

fun title_from :: "char \<Rightarrow> string \<Rightarrow> string" where
  "title_from prev [] = []"
| "title_from prev (c # cs) = (if isSeparator prev then upper_char c else c) # title_from c cs"

definition Title :: "string \<Rightarrow> string" where
  "Title s = title_from CHR '' '' s"

section \<open>The document structure\<close>

record SchemaRef =
  Ref :: string

record MediaTypeObject =
  Schema :: SchemaRef

record Response =
  resp_Description :: string
  resp_Content :: "string \<rightharpoonup> MediaTypeObject"

record RequestBody =
  body_Description :: string
  body_Required :: bool
  body_Content :: "string \<rightharpoonup> MediaTypeObject"

record Operation =
  Tags :: "string list"
  op_Summary :: string
  op_Description :: string
  OperationID :: string
  op_RequestBody :: "RequestBody option"
  Responses :: "string \<rightharpoonup> Response"

record PathItem =
  Get :: "Operation option"
  Post :: "Operation option"
  Put :: "Operation option"
  Delete :: "Operation option"

record Info =
  info_Title :: string
  info_Description :: string
  info_Version :: string

record Server =
  server_URL :: string
  server_Description :: string

text \<open>
  A value of the table \<^verbatim>\<open>map[string]interface{}\<close>: an entry of the schema cache, or a Go
  value of any other type, which the type of the table admits as well. Of such a value the
  model keeps the name of its type, for instance \<open>chan int\<close>.
\<close>

datatype any_value = SchemaValue entry | OtherValue string

record Components =
  Schemas :: "string \<rightharpoonup> any_value"

record OpenAPISpec =
  OpenAPI :: string
  spec_Info :: Info
  Servers :: "Server list"
  Paths :: "string \<rightharpoonup> PathItem"
  spec_Components :: Components

text \<open>The generator's state: the discovered routes and the type schema cache.\<close>

record Generator =
  routes :: "RouteInfo list"
  typeSchemas :: "string \<rightharpoonup> any_value"

section \<open>Route to operation\<close>

text \<open>
  \<^verbatim>\<open>getTypeName\<close> is a method of the generator whose body is in a file that the sources do
  not include; every function that calls it takes it as its first argument.
\<close>

type_synonym type_namer = "gotype \<Rightarrow> string"

text \<open>The verb prefix chosen by the \<^verbatim>\<open>switch\<close> of \<^verbatim>\<open>generateOperationID\<close>.\<close>

definition method_prefix :: "RouteInfo \<Rightarrow> string" where
  "method_prefix route =
     (let m = ToUpper (Method route) in
      if m = ''GET'' then (if Contains (Path route) ''list'' then ''list'' else ''get'')
      else if m = ''POST'' then
        (if Contains (Path route) ''add'' \<or> Contains (Path route) ''create''
         then ''create'' else ''post'')
      else if m = ''PUT'' then ''update''
      else if m = ''DELETE'' then ''delete''
      else ToLower (Method route))"

text \<open>
  The last loop of \<^verbatim>\<open>generateOperationID\<close>: \<open>i\<close> is the index into \<^verbatim>\<open>allParts\<close>, which
  advances over empty parts too.
\<close>

fun add_path_parts :: "nat \<Rightarrow> string list \<Rightarrow> string list \<Rightarrow> string list" where
  "add_path_parts i [] operationParts = operationParts"
| "add_path_parts i (part # rest) operationParts =
     (if part = [] then add_path_parts (Suc i) rest operationParts
      else if i = 0 then add_path_parts (Suc i) rest (operationParts @ [part])
      else add_path_parts (Suc i) rest (operationParts @ [Title part]))"

definition generateOperationID :: "RouteInfo \<Rightarrow> string" where
  "generateOperationID route =
     (let pathParts = Split (Trim (Path route) ''/'') CHR ''/'';
          allParts = concat (map (\<lambda>pathPart. Split pathPart CHR ''-'')
                                 (filter (\<lambda>pathPart. pathPart \<noteq> []) pathParts));
          operationParts = [method_prefix route]
      in concat (add_path_parts 0 allParts operationParts))"

definition schema_ref :: "string \<Rightarrow> string \<rightharpoonup> MediaTypeObject" where
  "schema_ref typeName =
     [''application/json'' \<mapsto> \<lparr>Schema = \<lparr>Ref = ''#/components/schemas/'' @ typeName\<rparr>\<rparr>]"

definition buildRequestBody :: "type_namer \<Rightarrow> RouteInfo \<Rightarrow> gotype \<Rightarrow> RequestBody" where
  "buildRequestBody getTypeName route requestType =
     \<lparr>body_Description = ''Request body for '' @ Summary route,
      body_Required = True,
      body_Content = schema_ref (getTypeName requestType)\<rparr>"

definition error_response :: "string \<Rightarrow> Response" where
  "error_response description =
     \<lparr>resp_Description = description, resp_Content = schema_ref ''ErrorResponse''\<rparr>"

definition success_response :: "type_namer \<Rightarrow> RouteInfo \<Rightarrow> Response" where
  "success_response getTypeName route =
     (case ResponseType route of
        Some responseType \<Rightarrow>
          \<lparr>resp_Description = ''Success'', resp_Content = schema_ref (getTypeName responseType)\<rparr>
      | None \<Rightarrow> \<lparr>resp_Description = ''Success'', resp_Content = Map.empty\<rparr>)"

definition buildResponses :: "type_namer \<Rightarrow> RouteInfo \<Rightarrow> string \<rightharpoonup> Response" where
  "buildResponses getTypeName route =
     (let responses = Map.empty(''200'' \<mapsto> success_response getTypeName route);
          responses = responses(''400'' \<mapsto> error_response ''Bad Request'');
          responses = responses(''500'' \<mapsto> error_response ''Internal Server Error'')
      in if ToUpper (Method route) \<noteq> ''GET''
         then responses(''422'' \<mapsto> error_response ''Unprocessable Entity'')
         else responses)"

definition buildOperation :: "type_namer \<Rightarrow> RouteInfo \<Rightarrow> Operation" where
  "buildOperation getTypeName route =
     (let operation = \<lparr>Tags = [Module route],
                       op_Summary = Summary route,
                       op_Description = [],
                       OperationID = generateOperationID route,
                       op_RequestBody = None,
                       Responses = buildResponses getTypeName route\<rparr>
      in case RequestType route of
           Some requestType \<Rightarrow>
             if ToUpper (Method route) \<noteq> ''GET''
             then operation\<lparr>op_RequestBody := Some (buildRequestBody getTypeName route requestType)\<rparr>
             else operation
         | None \<Rightarrow> operation)"

section \<open>Document assembly\<close>

definition empty_PathItem :: PathItem where
  "empty_PathItem = \<lparr>Get = None, Post = None, Put = None, Delete = None\<rparr>"

text \<open>One iteration of the loop of \<^verbatim>\<open>buildPaths\<close>.\<close>

definition add_route :: "type_namer \<Rightarrow> RouteInfo \<Rightarrow> (string \<rightharpoonup> PathItem) \<Rightarrow> string \<rightharpoonup> PathItem" where
  "add_route getTypeName route paths =
     (let pathItem = (case paths (Path route) of Some existing \<Rightarrow> existing | None \<Rightarrow> empty_PathItem);
          operation = buildOperation getTypeName route;
          m = ToUpper (Method route);
          pathItem = (if m = ''GET'' then pathItem\<lparr>Get := Some operation\<rparr>
                      else if m = ''POST'' then pathItem\<lparr>Post := Some operation\<rparr>
                      else if m = ''PUT'' then pathItem\<lparr>Put := Some operation\<rparr>
                      else if m = ''DELETE'' then pathItem\<lparr>Delete := Some operation\<rparr>
                      else pathItem)
      in paths(Path route \<mapsto> pathItem))"

definition buildPaths :: "type_namer \<Rightarrow> Generator \<Rightarrow> string \<rightharpoonup> PathItem" where
  "buildPaths getTypeName g = fold (add_route getTypeName) (routes g) Map.empty"

definition header :: string where
  "header = ''# Auto-generated OpenAPI specification'' @ [CHR 0x0A] @
            ''# DO NOT EDIT MANUALLY - Changes will be overwritten'' @ [CHR 0x0A, CHR 0x0A]"

text \<open>
  \<^verbatim>\<open>yaml.Marshal\<close> belongs to a library outside the repository and is a parameter. A call
  either returns, with the text of an error (\<open>Inl\<close>) or with the encoded document (\<open>Inr\<close>),
  or it panics with a value: the encoder of yaml.v3 panics on a value of a type that it
  cannot encode, such as a channel.
\<close>

datatype marshal_outcome = Returns "string + string" | Panics string

type_synonym marshaller = "OpenAPISpec \<Rightarrow> marshal_outcome"

text \<open>A panic that reaches the caller, with its value.\<close>

datatype panic = Panic string

definition assembled :: "type_namer \<Rightarrow> Generator \<Rightarrow> OpenAPISpec" where
  "assembled getTypeName g =
     \<lparr>OpenAPI = ''3.0.3'',
      spec_Info = \<lparr>info_Title = ''LLM API'',
                   info_Description =
                     ''Auto-generated API documentation for LLM service with zero-maintenance updates'',
                   info_Version = ''1.0.0''\<rparr>,
      Servers = [\<lparr>server_URL = ''http://localhost:8080'',
                  server_Description = ''Development server''\<rparr>],
      Paths = buildPaths getTypeName g,
      spec_Components = \<lparr>Schemas = typeSchemas g\<rparr>\<rparr>"

text \<open>
  The lines of \<^verbatim>\<open>buildOpenAPISpec\<close> after the call of \<^verbatim>\<open>yaml.Marshal\<close>: the text that the
  function returns once the encoder has returned \<^verbatim>\<open>err\<close> or \<^verbatim>\<open>yamlData\<close>.
\<close>

definition spec_text :: "string + string \<Rightarrow> string" where
  "spec_text marshalled =
     (case marshalled of
        Inl err \<Rightarrow> ''# Error generating YAML: '' @ err @ [CHR 0x0A]
      | Inr yamlData \<Rightarrow> header @ yamlData)"

text \<open>
  \<^verbatim>\<open>buildOpenAPISpec\<close> has no \<^verbatim>\<open>recover\<close>: a panic of the encoder leaves the function as it
  is (\<open>Inl\<close>); otherwise the function returns a text (\<open>Inr\<close>).
\<close>

definition buildOpenAPISpec :: "marshaller \<Rightarrow> type_namer \<Rightarrow> Generator \<Rightarrow> panic + string" where
  "buildOpenAPISpec marshal getTypeName g =
     (case marshal (assembled getTypeName g) of
        Panics v \<Rightarrow> Inl (Panic v)
      | Returns marshalled \<Rightarrow> Inr (spec_text marshalled))"

section \<open>The type reflector and the schema cache\<close>

text \<open>
  Modelled from the spec: the declaration of a struct field as the reflector reads it. The
  file that holds \<^verbatim>\<open>generateTypeSchema\<close> is missing from the repository's sources, which
  keep only its tests. A field has its declared name, its type and what its naming
  annotation says: an explicit external name if there is one, the mark "excluded" and the
  mark "omit if empty".
\<close>

record StructField =
  field_name :: string
  field_type :: gotype
  tag_name :: "string option"
  tag_excluded :: bool
  tag_omitempty :: bool

text \<open>
  Modelled from the spec: the struct declarations of the program, each name with its fields
  in declaration order.
\<close>

type_synonym decls = "(string \<times> StructField list) list"

text \<open>
  Modelled from the spec: the Type Schema Cache, "a mapping from a canonical type name to its
  generated schema", where a name that is reserved holds a placeholder.
\<close>

type_synonym cache = "string \<rightharpoonup> entry"

text \<open>
  Modelled from the spec: the declared fields of a struct type, in declaration order. A name
  without a declaration has no fields.
\<close>

definition fields_of :: "decls \<Rightarrow> string \<Rightarrow> StructField list" where
  "fields_of D name = (case map_of D name of Some fs \<Rightarrow> fs | None \<Rightarrow> [])"

text \<open>
  Modelled from the spec: the externally visible name of a field, "from an explicit naming
  annotation if present"; a field without one "falls back to its declared internal name".
\<close>

definition property_name :: "StructField \<Rightarrow> string" where
  "property_name f = (case tag_name f of Some name \<Rightarrow> name | None \<Rightarrow> field_name f)"

text \<open>Modelled from the spec: whether a type "is itself a pointer/optional wrapper".\<close>

fun is_pointer :: "gotype \<Rightarrow> bool" where
  "is_pointer (TPtr t) = True"
| "is_pointer t = False"

text \<open>
  Modelled from the spec: a field is not added to the required set "if it is explicitly
  marked optional (an omit-if-empty annotation) or if its type is itself a pointer/optional
  wrapper".
\<close>

definition optional_field :: "StructField \<Rightarrow> bool" where
  "optional_field f = (tag_omitempty f \<or> is_pointer (field_type f))"

text \<open>
  Modelled from the spec: the properties of an object schema are "an ordered-by-declaration
  mapping of property name to nested schema". A new name goes to the end; a name that is
  already there keeps its place and takes the new schema.
\<close>

fun put_property :: "string \<Rightarrow> schema \<Rightarrow> (string \<times> schema) list \<Rightarrow> (string \<times> schema) list" where
  "put_property k v [] = [(k, v)]"
| "put_property k v (p # ps) = (if fst p = k then (k, v) # ps else p # put_property k v ps)"

text \<open>
  Modelled from the spec: the loop over the declared fields of a struct (rule 6 of the Type
  Reflector). \<open>resolve\<close> reflects the type of one field through the cache; the cache it
  returns is the one the next field sees. An excluded field "is omitted entirely"; the
  required names are appended in declaration order.
\<close>

fun reflect_fields ::
  "(cache \<Rightarrow> gotype \<Rightarrow> (schema \<times> cache) option) \<Rightarrow> StructField list \<Rightarrow>
   (string \<times> schema) list \<Rightarrow> string list \<Rightarrow> cache \<Rightarrow>
   ((string \<times> schema) list \<times> string list \<times> cache) option" where
  "reflect_fields resolve [] properties required c = Some (properties, required, c)"
| "reflect_fields resolve (f # fs) properties required c =
     (if tag_excluded f then reflect_fields resolve fs properties required c
      else (case resolve c (field_type f) of
              None \<Rightarrow> None
            | Some (s, c') \<Rightarrow>
                reflect_fields resolve fs
                  (put_property (property_name f) s properties)
                  (if optional_field f then required else required @ [property_name f])
                  c'))"

text \<open>
  Modelled from the spec: the mapping rules of the Type Reflector. The first argument bounds
  the depth of the recursion, and \<open>None\<close> stands for a reflection that has not returned
  within that depth. A pointer is unwrapped; the temporal type, the numeric kinds, booleans
  and strings have their fixed schemas; a slice or an array has the schema of its element
  as items; a map with a string key accepts any value when its value type is the empty
  interface and has typed values otherwise; every other shape is an opaque object. A struct
  that has an entry in the cache, placeholder or completed, yields a reference to it. A
  struct without an entry gets a placeholder "before recursing", then its fields are
  reflected, then the completed schema is stored "under that reserved name".
\<close>

fun reflect_type :: "nat \<Rightarrow> decls \<Rightarrow> cache \<Rightarrow> gotype \<Rightarrow> (schema \<times> cache) option" where
  "reflect_type 0 D c t = None"
| "reflect_type (Suc n) D c (TPtr t) = reflect_type n D c t"
| "reflect_type (Suc n) D c TTime = Some (SDateTime, c)"
| "reflect_type (Suc n) D c (TInt k) = Some (SInteger, c)"
| "reflect_type (Suc n) D c (TFloat k) = Some (SNumber, c)"
| "reflect_type (Suc n) D c TBool = Some (SBoolean, c)"
| "reflect_type (Suc n) D c TString = Some (SString, c)"
| "reflect_type (Suc n) D c (TSlice t) =
     (case reflect_type n D c t of
        None \<Rightarrow> None
      | Some (items, c') \<Rightarrow> Some (SArray items, c'))"
| "reflect_type (Suc n) D c (TArray len t) =
     (case reflect_type n D c t of
        None \<Rightarrow> None
      | Some (items, c') \<Rightarrow> Some (SArray items, c'))"
| "reflect_type (Suc n) D c (TMap k v) =
     (if k = TString then
        (if v = TInterface then Some (SMapAny, c)
         else (case reflect_type n D c v of
                 None \<Rightarrow> None
               | Some (s, c') \<Rightarrow> Some (SMapOf s, c')))
      else Some (SOpaque, c))"
| "reflect_type (Suc n) D c (TStruct name) =
     (if c name \<noteq> None then Some (SRef name, c)
      else (case reflect_fields (reflect_type n D) (fields_of D name) [] [] (c(name \<mapsto> Placeholder)) of
              None \<Rightarrow> None
            | Some (properties, required, c') \<Rightarrow>
                Some (SObject properties required,
                      c'(name \<mapsto> Completed (SObject properties required)))))"
| "reflect_type (Suc n) D c TInterface = Some (SOpaque, c)"
| "reflect_type (Suc n) D c (TOther kind) = Some (SOpaque, c)"

text \<open>
  Modelled from the spec: the number of wrappers (pointer, slice, array, map) around a type.
  The next three definitions bound the recursion depth that a reflection needs.
\<close>

fun depth :: "gotype \<Rightarrow> nat" where
  "depth (TPtr t) = Suc (depth t)"
| "depth (TSlice t) = Suc (depth t)"
| "depth (TArray len t) = Suc (depth t)"
| "depth (TMap k v) = Suc (depth v)"
| "depth t = 0"

text \<open>Modelled from the spec: a bound on the wrappers around the type of a declared field.\<close>

definition field_depth :: "decls \<Rightarrow> nat" where
  "field_depth D = fold max (map (\<lambda>f. Suc (depth (field_type f))) (concat (map snd D))) 0"

text \<open>
  Modelled from the spec: the number of declared struct names without an entry in the cache.
  Each struct that the reflection enters reserves one of them.
\<close>

definition pending :: "decls \<Rightarrow> cache \<Rightarrow> nat" where
  "pending D c = length (filter (\<lambda>name. c name = None) (remdups (map fst D)))"

text \<open>
  Modelled from the spec: a recursion depth that is enough to reflect \<open>t\<close> from the cache
  \<open>c\<close>: the wrappers of \<open>t\<close>, and for every struct that may still be entered one level
  and the wrappers of a field.
\<close>

definition enough :: "decls \<Rightarrow> cache \<Rightarrow> gotype \<Rightarrow> nat" where
  "enough D c t = Suc (depth t) + pending D c * Suc (field_depth D)"

text \<open>
  Modelled from the spec: \<^verbatim>\<open>generateTypeSchema\<close>, the entry point that the tests call. It
  returns the schema of the type and the cache as the reflection leaves it.
\<close>

definition generateTypeSchema :: "decls \<Rightarrow> cache \<Rightarrow> gotype \<Rightarrow> (schema \<times> cache) option" where
  "generateTypeSchema D c t = reflect_type (enough D c t) D c t"

section \<open>Running the generator\<close>

text \<open>
  Modelled from the spec: the one validation failure of the assembler. \<^verbatim>\<open>GenerateSpec\<close> is
  defined in the missing file; its test matches the text of the error against
  \<open>no routes discovered\<close>.
\<close>

datatype generator_error = NoRoutesDiscovered

text \<open>Modelled from the spec: the text of the error, as the caller matches it.\<close>

fun error_text :: "generator_error \<Rightarrow> string" where
  "error_text NoRoutesDiscovered = ''no routes discovered''"

text \<open>
  Modelled from the spec: the schema of the Standard Schema Provider, the error envelope: an
  object with the required properties \<open>error\<close>, \<open>message\<close> and \<open>status\<close>.
\<close>

definition ErrorResponse_schema :: schema where
  "ErrorResponse_schema =
     SObject [(''error'', SString), (''message'', SString), (''status'', SInteger)]
             [''error'', ''message'', ''status'']"

text \<open>
  Modelled from the spec: \<^verbatim>\<open>addStandardSchemas\<close> stores the error envelope under the name
  \<open>ErrorResponse\<close>, once for the run.
\<close>

definition addStandardSchemas :: "cache \<Rightarrow> cache" where
  "addStandardSchemas c = c(''ErrorResponse'' \<mapsto> Completed ErrorResponse_schema)"

text \<open>
  Modelled from the spec: the request or response type of a route, when the route declares
  one and the cache has no entry under its name, is reflected and its schema is stored under
  that name.
\<close>

definition resolve_declared :: "type_namer \<Rightarrow> decls \<Rightarrow> gotype option \<Rightarrow> cache \<Rightarrow> cache" where
  "resolve_declared getTypeName D declared c =
     (case declared of
        None \<Rightarrow> c
      | Some t \<Rightarrow>
          if c (getTypeName t) \<noteq> None then c
          else (case generateTypeSchema D c t of
                  None \<Rightarrow> c
                | Some (s, c') \<Rightarrow> c'(getTypeName t \<mapsto> Completed s)))"

text \<open>Modelled from the spec: \<^verbatim>\<open>generateSchemas\<close> fills the cache from the routes, in order.\<close>

definition generateSchemas :: "type_namer \<Rightarrow> decls \<Rightarrow> RouteInfo list \<Rightarrow> cache \<Rightarrow> cache" where
  "generateSchemas getTypeName D rs c =
     fold (\<lambda>route c. resolve_declared getTypeName D (ResponseType route)
                       (resolve_declared getTypeName D (RequestType route) c)) rs c"

text \<open>
  Modelled from the spec: the generator as \<^verbatim>\<open>GenerateSpec\<close> leaves it for serialisation. Its
  table holds the entries of the cache of the run and the standard schemas, and no value of
  another type.
\<close>

definition generated :: "type_namer \<Rightarrow> decls \<Rightarrow> RouteInfo list \<Rightarrow> Generator" where
  "generated getTypeName D registered =
     \<lparr>routes = registered,
      typeSchemas =
        (\<lambda>name. map_option SchemaValue
           (addStandardSchemas (generateSchemas getTypeName D registered Map.empty) name))\<rparr>"

text \<open>
  Modelled from the spec: \<^verbatim>\<open>GenerateSpec\<close>, the Document Assembler. It "fails with a no
  routes condition if the route list is empty"; otherwise it fills the cache, adds the
  standard schemas and serialises the document as \<^verbatim>\<open>buildOpenAPISpec\<close> does. The document of
  a run holds schemas only, so the encoder is here a function that returns, with an error or
  with the body, and the result is the text that \<^verbatim>\<open>buildOpenAPISpec\<close> returns for it.
\<close>

definition GenerateSpec ::
  "(OpenAPISpec \<Rightarrow> string + string) \<Rightarrow> type_namer \<Rightarrow> decls \<Rightarrow> RouteInfo list \<Rightarrow>
   generator_error + string" where
  "GenerateSpec marshal getTypeName D registered =
     (if registered = [] then Inl NoRoutesDiscovered
      else Inr (spec_text (marshal (assembled getTypeName (generated getTypeName D registered)))))"

section \<open>What the paths table holds, stated route by route\<close>

text \<open>
  The operation that ends up in the slot \<open>m\<close> of the path \<open>p\<close>: the one compiled from the
  last route of the list with that path and, upper-cased, that method.
\<close>

definition slot_op :: "type_namer \<Rightarrow> string \<Rightarrow> string \<Rightarrow> RouteInfo list \<Rightarrow> Operation option" where
  "slot_op getTypeName m p rs =
     (let hits = filter (\<lambda>r. Path r = p \<and> ToUpper (Method r) = m) rs
      in if hits = [] then None else Some (buildOperation getTypeName (last hits)))"

definition path_item_of :: "type_namer \<Rightarrow> string \<Rightarrow> RouteInfo list \<Rightarrow> PathItem" where
  "path_item_of tn p rs =
     \<lparr>Get = slot_op tn ''GET'' p rs, Post = slot_op tn ''POST'' p rs,
      Put = slot_op tn ''PUT'' p rs, Delete = slot_op tn ''DELETE'' p rs\<rparr>"

section \<open>What an object schema holds, stated field by field\<close>

text \<open>The names of a list in their order, each at its first occurrence.\<close>

fun first_occurrences :: "string list \<Rightarrow> string list" where
  "first_occurrences [] = []"
| "first_occurrences (k # ks) = k # filter (\<lambda>x. x \<noteq> k) (first_occurrences ks)"

text \<open>The fields that are not excluded, and among them those that are required.\<close>

definition kept_fields :: "StructField list \<Rightarrow> StructField list" where
  "kept_fields fs = filter (\<lambda>f. \<not> tag_excluded f) fs"

definition required_fields :: "StructField list \<Rightarrow> StructField list" where
  "required_fields fs =
     filter (\<lambda>f. \<not> tag_excluded f \<and> \<not> tag_omitempty f \<and> \<not> is_pointer (field_type f)) fs"

fun strip_pointers :: "gotype \<Rightarrow> gotype" where
  "strip_pointers (TPtr t) = strip_pointers t"
| "strip_pointers t = t"

text \<open>The keys of a property list after one more \<open>put_property\<close>.\<close>

definition insert_key :: "string \<Rightarrow> string list \<Rightarrow> string list" where
  "insert_key k ks = (if k \<in> set ks then ks else ks @ [k])"

section \<open>Example inputs\<close>

text \<open>
  The routes of the repository's \<^verbatim>\<open>TestBuildPaths\<close>, and one with a method that has no slot.
  \<open>example_namer\<close> stands in for \<^verbatim>\<open>getTypeName\<close> in the examples only: it names a struct
  type by its name, as \<^verbatim>\<open>TestGetTypeName\<close> expects.
\<close>

definition example_namer :: type_namer where
  "example_namer t = (case t of TStruct name \<Rightarrow> name | _ \<Rightarrow> ''object'')"

definition users_get :: RouteInfo where
  "users_get = \<lparr>Method = ''GET'', Path = ''/users'', RequestType = None,
                 ResponseType = Some (TSlice (TStruct ''TestResponse'')),
                 Module = ''users'', Summary = ''List users''\<rparr>"

definition users_post :: RouteInfo where
  "users_post = \<lparr>Method = ''POST'', Path = ''/users'', RequestType = Some (TStruct ''TestRequest''),
                  ResponseType = Some (TStruct ''TestResponse''),
                  Module = ''users'', Summary = ''Create user''\<rparr>"

definition health_get :: RouteInfo where
  "health_get = \<lparr>Method = ''GET'', Path = ''/health'', RequestType = None,
                  ResponseType = Some (TMap TString TInterface),
                  Module = ''health'', Summary = ''Health check''\<rparr>"

definition trace_route :: RouteInfo where
  "trace_route = \<lparr>Method = ''TRACE'', Path = ''/debug'', RequestType = None,
                  ResponseType = None, Module = ''debug'', Summary = ''Echo''\<rparr>"

definition example_generator :: Generator where
  "example_generator = \<lparr>routes = [users_get, users_post, health_get], typeSchemas = Map.empty\<rparr>"

definition trace_generator :: Generator where
  "trace_generator = \<lparr>routes = [health_get, trace_route], typeSchemas = Map.empty\<rparr>"

text \<open>
  A generator whose table holds a channel under the name \<open>Broken\<close>, and an encoder for the
  examples. Like the encoder of yaml.v3 it panics on a value that is no schema, with the
  message of yaml.v3; a table cannot be enumerated, so it looks under that one name. For
  every other document it returns a body of one line.
\<close>

definition broken_generator :: Generator where
  "broken_generator =
     \<lparr>routes = [health_get], typeSchemas = [''Broken'' \<mapsto> OtherValue ''chan int'']\<rparr>"

definition example_marshal :: marshaller where
  "example_marshal spec =
     (case Schemas (spec_Components spec) ''Broken'' of
        Some (OtherValue type_name) \<Rightarrow> Panics (''cannot marshal type: '' @ type_name)
      | _ \<Rightarrow> Returns (Inr (''openapi: '' @ OpenAPI spec)))"

text \<open>The struct types of \<^verbatim>\<open>TestJSONTagParsing\<close> and \<^verbatim>\<open>TestCircularReferenceHandling\<close>.\<close>

definition tagged_decls :: decls where
  "tagged_decls = [(''TaggedStruct'',
      [\<lparr>field_name = ''IncludedField'', field_type = TString,
        tag_name = Some ''included_field'', tag_excluded = False, tag_omitempty = False\<rparr>,
       \<lparr>field_name = ''OmitEmptyField'', field_type = TPtr TString,
        tag_name = Some ''omit_empty'', tag_excluded = False, tag_omitempty = True\<rparr>,
       \<lparr>field_name = ''ExcludedField'', field_type = TString,
        tag_name = None, tag_excluded = True, tag_omitempty = False\<rparr>,
       \<lparr>field_name = ''RequiredField'', field_type = TString,
        tag_name = Some ''required_field'', tag_excluded = False, tag_omitempty = False\<rparr>,
       \<lparr>field_name = ''NoTagField'', field_type = TString,
        tag_name = None, tag_excluded = False, tag_omitempty = False\<rparr>])]"

definition name_field :: StructField where
  "name_field = \<lparr>field_name = ''Name'', field_type = TString,
                  tag_name = Some ''name'', tag_excluded = False, tag_omitempty = False\<rparr>"

definition self_field :: StructField where
  "self_field = \<lparr>field_name = ''Self'', field_type = TPtr (TStruct ''CircularStruct''),
                  tag_name = Some ''self'', tag_excluded = False, tag_omitempty = True\<rparr>"

definition circular_decls :: decls where
  "circular_decls = [(''CircularStruct'', [name_field, self_field])]"

section \<open>Properties of the route compiler and the assembler\<close>

lemmas upper_simps = ToUpper_def upper_char_def lower_letters_def upper_letters_def

lemma upper_users_get: "ToUpper (Method users_get) = ''GET''"
  by (simp add: users_get_def upper_simps)
lemma upper_users_post: "ToUpper (Method users_post) = ''POST''"
  by (simp add: users_post_def upper_simps)
lemma upper_health_get: "ToUpper (Method health_get) = ''GET''"
  by (simp add: health_get_def upper_simps)
lemma upper_trace_route: "ToUpper (Method trace_route) = ''TRACE''"
  by (simp add: trace_route_def upper_simps)

lemma example_paths: "Path users_get = ''/users''" "Path users_post = ''/users''"
  "Path health_get = ''/health''" "Path trace_route = ''/debug''"
  by (simp_all add: users_get_def users_post_def health_get_def trace_route_def)

lemma slot_op_Nil: "slot_op tn m p [] = None"
  by (simp add: slot_op_def)

lemma slot_op_snoc:
  "slot_op tn m p (rs @ [r]) =
     (if Path r = p \<and> ToUpper (Method r) = m then Some (buildOperation tn r) else slot_op tn m p rs)"
  by (simp add: slot_op_def Let_def)

lemma slot_op_absent: "p \<notin> Path ` set rs \<Longrightarrow> slot_op tn m p rs = None"
proof -
  assume "p \<notin> Path ` set rs"
  then have "filter (\<lambda>r. Path r = p \<and> ToUpper (Method r) = m) rs = []"
    by (auto simp add: filter_empty_conv)
  then show ?thesis by (simp add: slot_op_def)
qed

lemma add_route_other: "p \<noteq> Path r \<Longrightarrow> add_route tn r paths p = paths p"
  by (simp add: add_route_def Let_def)

lemma add_route_same:
  "add_route tn r paths (Path r) =
     Some (let pathItem = (case paths (Path r) of Some existing \<Rightarrow> existing | None \<Rightarrow> empty_PathItem);
               m = ToUpper (Method r)
           in if m = ''GET'' then pathItem\<lparr>Get := Some (buildOperation tn r)\<rparr>
              else if m = ''POST'' then pathItem\<lparr>Post := Some (buildOperation tn r)\<rparr>
              else if m = ''PUT'' then pathItem\<lparr>Put := Some (buildOperation tn r)\<rparr>
              else if m = ''DELETE'' then pathItem\<lparr>Delete := Some (buildOperation tn r)\<rparr>
              else pathItem)"
  by (simp add: add_route_def Let_def)

lemma fold_add_route:
  "fold (add_route tn) rs Map.empty p =
     (if p \<in> Path ` set rs then Some (path_item_of tn p rs) else None)"
proof (induction rs arbitrary: p rule: rev_induct)
  case Nil
  show ?case by simp
next
  case (snoc r rs)
  define before where "before = fold (add_route tn) rs Map.empty"
  have IH: "before q = (if q \<in> Path ` set rs then Some (path_item_of tn q rs) else None)" for q
    unfolding before_def by (rule snoc)
  have step: "fold (add_route tn) (rs @ [r]) Map.empty p = add_route tn r before p"
    by (simp add: before_def)
  show ?case
  proof (cases "p = Path r")
    case True
    have "add_route tn r before (Path r) = Some (path_item_of tn (Path r) (rs @ [r]))"
    proof (cases "Path r \<in> Path ` set rs")
      case seen: True
      then have "before (Path r) = Some (path_item_of tn (Path r) rs)"
        by (simp add: IH)
      then show ?thesis
        by (simp add: add_route_same Let_def path_item_of_def slot_op_snoc)
    next
      case fresh: False
      then have "before (Path r) = None"
        by (simp add: IH)
      then show ?thesis
        by (simp add: add_route_same Let_def path_item_of_def slot_op_snoc
            slot_op_absent [OF fresh] empty_PathItem_def)
    qed
    with True step show ?thesis by simp
  next
    case False
    then have "add_route tn r before p = before p"
      by (rule add_route_other)
    with False step show ?thesis
      by (simp add: IH path_item_of_def slot_op_snoc)
  qed
qed

lemma buildPaths_apply:
  "buildPaths tn g p =
     (if p \<in> Path ` set (routes g) then Some (path_item_of tn p (routes g)) else None)"
  unfolding buildPaths_def by (rule fold_add_route)

lemma dom_buildPaths: "dom (buildPaths tn g) = Path ` set (routes g)"
  by (auto simp add: dom_def buildPaths_apply)

text \<open>
  C2 (as amended): the operation identifiers of the five example routes. The first path
  fragment is appended as it stands, so the last example begins \<open>createapi\<close>; this is also
  the value that \<^verbatim>\<open>TestGenerateOperationID\<close> expects.
\<close>

theorem operation_id_examples:
  "generateOperationID \<lparr>Method = ''GET'', Path = ''/health'', RequestType = None,
      ResponseType = None, Module = [], Summary = []\<rparr> = ''gethealth'' \<and>
   generateOperationID \<lparr>Method = ''POST'', Path = ''/add-record'', RequestType = None,
      ResponseType = None, Module = [], Summary = []\<rparr> = ''createaddRecord'' \<and>
   generateOperationID \<lparr>Method = ''PUT'', Path = ''/update-user'', RequestType = None,
      ResponseType = None, Module = [], Summary = []\<rparr> = ''updateupdateUser'' \<and>
   generateOperationID \<lparr>Method = ''DELETE'', Path = ''/remove-item'', RequestType = None,
      ResponseType = None, Module = [], Summary = []\<rparr> = ''deleteremoveItem'' \<and>
   generateOperationID \<lparr>Method = ''POST'', Path = ''/api/v1/user-management/create-admin'',
      RequestType = None, ResponseType = None, Module = [], Summary = []\<rparr>
     = ''createapiV1UserManagementCreateAdmin''"
  by code_simp

text \<open>
  C2 as stated fails on its fifth example: the identifier of
  \<^verbatim>\<open>POST /api/v1/user-management/create-admin\<close> is not \<open>createApiV1UserManagementCreateAdmin\<close>.
\<close>

theorem operation_id_create_admin_counterexample:
  "generateOperationID \<lparr>Method = ''POST'', Path = ''/api/v1/user-management/create-admin'',
      RequestType = None, ResponseType = None, Module = [], Summary = []\<rparr>
     \<noteq> ''createApiV1UserManagementCreateAdmin''"
  by code_simp

text \<open>
  C3: the response table of every route has a 200 entry, which references the named schema of
  the response type when the route declares one and has no content otherwise, a 400 and a 500
  entry that reference \<open>ErrorResponse\<close>, and a 422 entry, referencing \<open>ErrorResponse\<close> too,
  exactly when the method is not GET. The method is compared the way the code compares it,
  after upper-casing. No other status code occurs.
\<close>

theorem buildResponses_table:
  "buildResponses tn route ''200'' = Some (success_response tn route) \<and>
   success_response tn route =
     \<lparr>resp_Description = ''Success'',
      resp_Content = (case ResponseType route of
                        Some t \<Rightarrow> [''application/json'' \<mapsto>
                                    \<lparr>Schema = \<lparr>Ref = ''#/components/schemas/'' @ tn t\<rparr>\<rparr>]
                      | None \<Rightarrow> Map.empty)\<rparr> \<and>
   buildResponses tn route ''400'' =
     Some \<lparr>resp_Description = ''Bad Request'',
           resp_Content = [''application/json'' \<mapsto>
                             \<lparr>Schema = \<lparr>Ref = ''#/components/schemas/ErrorResponse''\<rparr>\<rparr>]\<rparr> \<and>
   buildResponses tn route ''500'' =
     Some \<lparr>resp_Description = ''Internal Server Error'',
           resp_Content = [''application/json'' \<mapsto>
                             \<lparr>Schema = \<lparr>Ref = ''#/components/schemas/ErrorResponse''\<rparr>\<rparr>]\<rparr> \<and>
   buildResponses tn route ''422'' =
     (if ToUpper (Method route) = ''GET'' then None
      else Some \<lparr>resp_Description = ''Unprocessable Entity'',
                 resp_Content = [''application/json'' \<mapsto>
                                   \<lparr>Schema = \<lparr>Ref = ''#/components/schemas/ErrorResponse''\<rparr>\<rparr>]\<rparr>) \<and>
   (''422'' \<in> dom (buildResponses tn route) \<longleftrightarrow> ToUpper (Method route) \<noteq> ''GET'') \<and>
   dom (buildResponses tn route) \<subseteq> {''200'', ''400'', ''422'', ''500''}"
  by (cases "ResponseType route")
     (auto simp add: buildResponses_def success_response_def error_response_def schema_ref_def Let_def
           split: if_splits)

theorem buildResponses_table_witness:
  "buildResponses example_namer users_post ''200'' =
     Some \<lparr>resp_Description = ''Success'',
           resp_Content = [''application/json'' \<mapsto>
                             \<lparr>Schema = \<lparr>Ref = ''#/components/schemas/TestResponse''\<rparr>\<rparr>]\<rparr> \<and>
   ''422'' \<in> dom (buildResponses example_namer users_post) \<and>
   ''422'' \<notin> dom (buildResponses example_namer health_get) \<and>
   buildResponses example_namer trace_route ''200'' =
     Some \<lparr>resp_Description = ''Success'', resp_Content = Map.empty\<rparr>"
  using buildResponses_table [of example_namer users_post]
        buildResponses_table [of example_namer health_get]
        buildResponses_table [of example_namer trace_route]
  by (simp add: upper_users_post upper_health_get upper_trace_route)
     (simp add: users_post_def trace_route_def example_namer_def)

text \<open>
  C7: the compiled operation has a request body exactly when the route declares a request type
  and its method, upper-cased as in the code, is not GET. A request body is required,
  references the named schema of the request type, and its description is the route's summary
  after a fixed, non-empty prefix.
\<close>

theorem request_body_iff:
  "(op_RequestBody (buildOperation tn route) \<noteq> None \<longleftrightarrow>
      RequestType route \<noteq> None \<and> ToUpper (Method route) \<noteq> ''GET'') \<and>
   (\<forall>body. op_RequestBody (buildOperation tn route) = Some body \<longrightarrow>
      body_Required body \<and>
      (\<exists>t. RequestType route = Some t \<and>
           body_Content body = [''application/json'' \<mapsto>
                                  \<lparr>Schema = \<lparr>Ref = ''#/components/schemas/'' @ tn t\<rparr>\<rparr>]) \<and>
      body_Description body = ''Request body for '' @ Summary route \<and>
      body_Description body \<noteq> [])"
  by (cases "RequestType route")
     (auto simp add: buildOperation_def buildRequestBody_def schema_ref_def Let_def)

theorem request_body_iff_witness:
  "op_RequestBody (buildOperation example_namer users_post) =
     Some \<lparr>body_Description = ''Request body for Create user'', body_Required = True,
           body_Content = [''application/json'' \<mapsto>
                             \<lparr>Schema = \<lparr>Ref = ''#/components/schemas/TestRequest''\<rparr>\<rparr>]\<rparr> \<and>
   op_RequestBody (buildOperation example_namer users_get) = None"
proof -
  have post: "RequestType users_post = Some (TStruct ''TestRequest'')"
    and summary: "Summary users_post = ''Create user''"
    and get: "RequestType users_get = None"
    by (simp_all add: users_post_def users_get_def)
  from request_body_iff [of example_namer users_post]
  obtain body where b: "op_RequestBody (buildOperation example_namer users_post) = Some body"
    using post upper_users_post by auto
  with request_body_iff [of example_namer users_post] post summary
  have "body = \<lparr>body_Description = ''Request body for Create user'', body_Required = True,
           body_Content = [''application/json'' \<mapsto>
                             \<lparr>Schema = \<lparr>Ref = ''#/components/schemas/TestRequest''\<rparr>\<rparr>]\<rparr>"
    by (cases body) (simp add: example_namer_def)
  moreover have "op_RequestBody (buildOperation example_namer users_get) = None"
    using request_body_iff [of example_namer users_get] get by simp
  ultimately show ?thesis using b by simp
qed

text \<open>
  C8: the paths table has exactly one entry for each distinct path of the route list. In the
  entry of a path, the slot of each of GET, POST, PUT and DELETE holds the operation of the
  last route with that path and method, so a later route overwrites an earlier one, and the
  slot is absent when no route has that path and method.
\<close>

theorem buildPaths_grouping:
  "buildPaths tn g p =
     (if p \<in> Path ` set (routes g)
      then Some \<lparr>Get = slot_op tn ''GET'' p (routes g), Post = slot_op tn ''POST'' p (routes g),
                 Put = slot_op tn ''PUT'' p (routes g), Delete = slot_op tn ''DELETE'' p (routes g)\<rparr>
      else None) \<and>
   dom (buildPaths tn g) = Path ` set (routes g) \<and>
   card (dom (buildPaths tn g)) = length (remdups (map Path (routes g)))"
proof -
  have "card (Path ` set (routes g)) = length (remdups (map Path (routes g)))"
    by (metis length_remdups_card_conv set_map)
  then show ?thesis
    by (simp add: buildPaths_apply dom_buildPaths path_item_of_def)
qed

theorem buildPaths_grouping_witness:
  "buildPaths example_namer example_generator ''/users'' =
     Some \<lparr>Get = Some (buildOperation example_namer users_get),
           Post = Some (buildOperation example_namer users_post), Put = None, Delete = None\<rparr> \<and>
   buildPaths example_namer example_generator ''/health'' =
     Some \<lparr>Get = Some (buildOperation example_namer health_get),
           Post = None, Put = None, Delete = None\<rparr> \<and>
   card (dom (buildPaths example_namer example_generator)) = 2 \<and>
   buildPaths example_namer \<lparr>routes = [users_get, health_get, users_get\<lparr>Summary := ''Again''\<rparr>],
                              typeSchemas = Map.empty\<rparr> ''/users'' =
     Some \<lparr>Get = Some (buildOperation example_namer (users_get\<lparr>Summary := ''Again''\<rparr>)),
           Post = None, Put = None, Delete = None\<rparr>"
  using buildPaths_grouping [of example_namer example_generator "''/users''"]
        buildPaths_grouping [of example_namer example_generator "''/health''"]
        buildPaths_grouping [of example_namer
          "\<lparr>routes = [users_get, health_get, users_get\<lparr>Summary := ''Again''\<rparr>],
            typeSchemas = Map.empty\<rparr>" "''/users''"]
  by (simp add: example_generator_def example_paths slot_op_def upper_users_get upper_users_post
        upper_health_get)

lemma buildOpenAPISpec_returning:
  "buildOpenAPISpec (\<lambda>spec. Returns (marshal spec)) tn g = Inr (spec_text (marshal (assembled tn g)))"
  by (simp add: buildOpenAPISpec_def)

text \<open>
  C9 (as amended): \<^verbatim>\<open>buildOpenAPISpec\<close> returns text exactly when the encoder returns. When
  the encoder returns the body, the text is the two comment lines of the banner, an empty
  line and the body; when the encoder returns an error, the text is one comment line that
  carries the error. Every text that is returned is not empty and begins with the comment
  sign. A panic of the encoder is not recovered: it reaches the caller with its value.
\<close>

theorem buildOpenAPISpec_outcome:
  "buildOpenAPISpec marshal tn g =
     (case marshal (assembled tn g) of
        Returns (Inr yamlData) \<Rightarrow>
          Inr (''# Auto-generated OpenAPI specification'' @ [CHR 0x0A] @
               ''# DO NOT EDIT MANUALLY - Changes will be overwritten'' @ [CHR 0x0A] @
               [CHR 0x0A] @ yamlData)
      | Returns (Inl err) \<Rightarrow> Inr (''# Error generating YAML: '' @ err @ [CHR 0x0A])
      | Panics v \<Rightarrow> Inl (Panic v)) \<and>
   ((\<exists>text. buildOpenAPISpec marshal tn g = Inr text) \<longleftrightarrow>
    (\<exists>marshalled. marshal (assembled tn g) = Returns marshalled)) \<and>
   (\<forall>text. buildOpenAPISpec marshal tn g = Inr text \<longrightarrow> text \<noteq> [] \<and> hd text = CHR ''#'')"
proof (cases "marshal (assembled tn g)")
  case (Returns marshalled)
  then show ?thesis
    by (cases marshalled) (auto simp add: buildOpenAPISpec_def spec_text_def header_def)
next
  case (Panics v)
  then show ?thesis
    by (simp add: buildOpenAPISpec_def)
qed

theorem buildOpenAPISpec_outcome_witness:
  "buildOpenAPISpec example_marshal example_namer example_generator =
     Inr (''# Auto-generated OpenAPI specification'' @ [CHR 0x0A] @
          ''# DO NOT EDIT MANUALLY - Changes will be overwritten'' @ [CHR 0x0A, CHR 0x0A] @
          ''openapi: 3.0.3'') \<and>
   buildOpenAPISpec (\<lambda>spec. Returns (Inl ''cannot marshal'')) example_namer example_generator =
     Inr (''# Error generating YAML: cannot marshal'' @ [CHR 0x0A])"
  using buildOpenAPISpec_outcome [of example_marshal example_namer example_generator]
        buildOpenAPISpec_outcome [of "\<lambda>spec. Returns (Inl ''cannot marshal'')" example_namer
          example_generator]
  by (simp add: example_marshal_def assembled_def example_generator_def)

text \<open>
  C9 as stated fails: with a channel in the table the encoder panics, and
  \<^verbatim>\<open>buildOpenAPISpec\<close> returns no text but passes the panic on.
\<close>

theorem buildOpenAPISpec_panic_counterexample:
  "buildOpenAPISpec example_marshal example_namer broken_generator =
     Inl (Panic ''cannot marshal type: chan int'')"
  by (simp add: buildOpenAPISpec_def example_marshal_def assembled_def broken_generator_def)

text \<open>
  C10: a route whose upper-cased method is none of GET, POST, PUT and DELETE leaves the four
  slots of its path's entry as they were and still stores the entry: its path is a key of the
  paths table, and when every route of that path has such a method the entry has no
  operation at all.
\<close>

theorem unsupported_method_path_entry:
  assumes "ToUpper (Method route) \<notin> {''GET'', ''POST'', ''PUT'', ''DELETE''}"
  shows "add_route tn route paths =
           paths(Path route \<mapsto>
             (case paths (Path route) of Some existing \<Rightarrow> existing | None \<Rightarrow> empty_PathItem)) \<and>
         (route \<in> set (routes g) \<longrightarrow> Path route \<in> dom (buildPaths tn g)) \<and>
         (route \<in> set (routes g) \<and>
          (\<forall>other \<in> set (routes g). Path other = Path route \<longrightarrow>
             ToUpper (Method other) \<notin> {''GET'', ''POST'', ''PUT'', ''DELETE''}) \<longrightarrow>
          buildPaths tn g (Path route) = Some empty_PathItem)"
proof (intro conjI impI)
  show "add_route tn route paths =
           paths(Path route \<mapsto>
             (case paths (Path route) of Some existing \<Rightarrow> existing | None \<Rightarrow> empty_PathItem))"
    using assms by (simp add: add_route_def Let_def)
next
  assume "route \<in> set (routes g)"
  then show "Path route \<in> dom (buildPaths tn g)"
    by (simp add: dom_buildPaths)
next
  assume a: "route \<in> set (routes g) \<and>
          (\<forall>other \<in> set (routes g). Path other = Path route \<longrightarrow>
             ToUpper (Method other) \<notin> {''GET'', ''POST'', ''PUT'', ''DELETE''})"
  have none: "slot_op tn m (Path route) (routes g) = None"
    if "m \<in> {''GET'', ''POST'', ''PUT'', ''DELETE''}" for m
  proof -
    have "filter (\<lambda>r. Path r = Path route \<and> ToUpper (Method r) = m) (routes g) = []"
      using a that by (auto simp add: filter_empty_conv)
    then show ?thesis by (simp add: slot_op_def)
  qed
  from a show "buildPaths tn g (Path route) = Some empty_PathItem"
    by (simp add: buildPaths_apply path_item_of_def empty_PathItem_def none)
qed

theorem unsupported_method_path_entry_witness:
  "ToUpper (Method trace_route) \<notin> {''GET'', ''POST'', ''PUT'', ''DELETE''} \<and>
   buildPaths example_namer trace_generator ''/debug'' =
     Some \<lparr>Get = None, Post = None, Put = None, Delete = None\<rparr> \<and>
   dom (buildPaths example_namer trace_generator) = {''/health'', ''/debug''}"
proof -
  have u: "ToUpper (Method trace_route) \<notin> {''GET'', ''POST'', ''PUT'', ''DELETE''}"
    by (simp add: upper_trace_route)
  have rs: "routes trace_generator = [health_get, trace_route]"
    by (simp add: trace_generator_def)
  have "buildPaths example_namer trace_generator (Path trace_route) = Some empty_PathItem"
    using unsupported_method_path_entry [OF u, of example_namer Map.empty trace_generator]
    by (simp add: rs example_paths upper_trace_route)
  moreover have "dom (buildPaths example_namer trace_generator) = {''/health'', ''/debug''}"
    by (simp add: dom_buildPaths rs example_paths)
  ultimately show ?thesis
    using u by (simp add: example_paths empty_PathItem_def)
qed

section \<open>Properties of the type reflector\<close>

lemma keys_put_property: "map fst (put_property k v ps) = insert_key k (map fst ps)"
  by (induction ps) (auto simp add: insert_key_def)

lemma map_of_put_property: "map_of (put_property k v ps) = (map_of ps)(k \<mapsto> v)"
  by (induction ps) (auto simp add: fun_eq_iff)

lemma fold_insert_key:
  "fold insert_key ks acc = acc @ filter (\<lambda>x. x \<notin> set acc) (first_occurrences ks)"
proof (induction ks arbitrary: acc)
  case Nil
  show ?case by simp
next
  case (Cons k ks)
  show ?case
  proof (cases "k \<in> set acc")
    case True
    then have "filter (\<lambda>x. x \<notin> set acc) (filter (\<lambda>x. x \<noteq> k) (first_occurrences ks))
                 = filter (\<lambda>x. x \<notin> set acc) (first_occurrences ks)"
      by (auto intro: filter_cong)
    with True Cons show ?thesis by (simp add: insert_key_def)
  next
    case False
    have "filter (\<lambda>x. x \<notin> set (acc @ [k])) (first_occurrences ks)
            = filter (\<lambda>x. x \<notin> set acc) (filter (\<lambda>x. x \<noteq> k) (first_occurrences ks))"
      by (auto intro: filter_cong)
    with False Cons show ?thesis by (simp add: insert_key_def)
  qed
qed

lemma set_first_occurrences: "set (first_occurrences ks) = set ks"
  by (induction ks) auto

lemma distinct_first_occurrences: "distinct (first_occurrences ks)"
  by (induction ks) simp_all

lemma required_fields_kept: "set (required_fields fs) \<subseteq> set (kept_fields fs)"
  by (auto simp add: required_fields_def kept_fields_def)

lemma reflect_fields_names:
  "reflect_fields resolve fs ps req c = Some (ps', req', c') \<Longrightarrow>
   map fst ps' = fold insert_key (map property_name (kept_fields fs)) (map fst ps) \<and>
   req' = req @ map property_name (required_fields fs)"
proof (induction fs arbitrary: ps req c)
  case Nil
  then show ?case by (simp add: kept_fields_def required_fields_def)
next
  case (Cons f fs)
  show ?case
  proof (cases "tag_excluded f")
    case True
    with Cons show ?thesis by (simp add: kept_fields_def required_fields_def)
  next
    case False
    with Cons.prems obtain s c1 where
      r: "resolve c (field_type f) = Some (s, c1)" and
      rest: "reflect_fields resolve fs (put_property (property_name f) s ps)
               (if optional_field f then req else req @ [property_name f]) c1 = Some (ps', req', c')"
      by (auto split: option.splits)
    from Cons.IH [OF rest] False show ?thesis
      by (simp add: kept_fields_def required_fields_def keys_put_property optional_field_def)
  qed
qed

lemma reflect_fields_append:
  "reflect_fields resolve (pre @ post) ps req c =
     (case reflect_fields resolve pre ps req c of
        None \<Rightarrow> None
      | Some (ps1, req1, c1) \<Rightarrow> reflect_fields resolve post ps1 req1 c1)"
  by (induction pre arbitrary: ps req c) (auto split: option.splits)

lemma reflect_fields_mono:
  assumes "\<And>c t s c'. resolve c t = Some (s, c') \<Longrightarrow> dom c \<subseteq> dom c'"
  shows "reflect_fields resolve fs ps req c = Some (ps', req', c') \<Longrightarrow> dom c \<subseteq> dom c'"
proof (induction fs arbitrary: ps req c)
  case Nil
  then show ?case by simp
next
  case (Cons f fs)
  show ?case
  proof (cases "tag_excluded f")
    case True
    with Cons show ?thesis by simp
  next
    case False
    with Cons.prems obtain s c1 where
      r: "resolve c (field_type f) = Some (s, c1)" and
      rest: "reflect_fields resolve fs (put_property (property_name f) s ps)
               (if optional_field f then req else req @ [property_name f]) c1 = Some (ps', req', c')"
      by (auto split: option.splits)
    from assms [OF r] Cons.IH [OF rest] show ?thesis by blast
  qed
qed

lemma reflect_fields_untouched:
  "reflect_fields resolve fs ps req c = Some (ps', req', c') \<Longrightarrow>
   k \<notin> property_name ` set (kept_fields fs) \<Longrightarrow> map_of ps' k = map_of ps k"
proof (induction fs arbitrary: ps req c)
  case Nil
  then show ?case by simp
next
  case (Cons f fs)
  show ?case
  proof (cases "tag_excluded f")
    case True
    with Cons show ?thesis by (simp add: kept_fields_def)
  next
    case False
    with Cons.prems obtain s c1 where
      rest: "reflect_fields resolve fs (put_property (property_name f) s ps)
               (if optional_field f then req else req @ [property_name f]) c1 = Some (ps', req', c')"
      by (auto split: option.splits)
    from Cons.prems(2) False have k: "k \<noteq> property_name f" "k \<notin> property_name ` set (kept_fields fs)"
      by (auto simp add: kept_fields_def)
    from Cons.IH [OF rest k(2)] k(1) show ?thesis
      by (simp add: map_of_put_property)
  qed
qed

lemma reflect_type_mono:
  "reflect_type n D c t = Some (s, c') \<Longrightarrow> dom c \<subseteq> dom c'"
proof (induction n arbitrary: c t s c')
  case 0
  then show ?case by simp
next
  case (Suc n)
  show ?case
  proof (cases t)
    case (TStruct name)
    show ?thesis
    proof (cases "c name")
      case None
      with Suc.prems TStruct obtain ps req c1 where
        fs: "reflect_fields (reflect_type n D) (fields_of D name) [] [] (c(name \<mapsto> Placeholder))
               = Some (ps, req, c1)"
        and c': "c' = c1(name \<mapsto> Completed (SObject ps req))"
        by (auto split: option.splits)
      have "dom (c(name \<mapsto> Placeholder)) \<subseteq> dom c1"
        using fs by (rule reflect_fields_mono [rotated]) (rule Suc.IH)
      with c' show ?thesis by auto
    next
      case (Some e)
      with Suc.prems TStruct show ?thesis by simp
    qed
  qed (use Suc.prems in \<open>auto split: option.splits if_splits dest: Suc.IH [THEN subsetD, OF _ domI]\<close>)
qed

subsection \<open>The recursion depth is enough\<close>

lemma fold_max_ge: "x \<in> set xs \<Longrightarrow> x \<le> fold max xs (a::nat)"
proof (induction xs arbitrary: a)
  case Nil
  then show ?case by simp
next
  case (Cons y ys)
  have grows: "b \<le> fold max zs (b::nat)" for b zs
  proof (induction zs arbitrary: b)
    case Nil
    show ?case by simp
  next
    case (Cons z zs)
    have "b \<le> max z b" by simp
    also have "\<dots> \<le> fold max zs (max z b)" by (rule Cons)
    finally show ?case by simp
  qed
  show ?case
  proof (cases "x = y")
    case True
    have "y \<le> max y a" by simp
    also have "\<dots> \<le> fold max ys (max y a)" by (rule grows)
    finally show ?thesis using True by simp
  next
    case False
    with Cons.prems have "x \<in> set ys" by simp
    then show ?thesis using Cons.IH by simp
  qed
qed

lemma declared_field_depth:
  assumes "map_of D name = Some fs" and "f \<in> set fs"
  shows "Suc (depth (field_type f)) \<le> field_depth D"
proof -
  from assms(1) have "(name, fs) \<in> set D" by (rule map_of_SomeD)
  with assms(2) have "f \<in> set (concat (map snd D))" by force
  then have "Suc (depth (field_type f)) \<in> set (map (\<lambda>f. Suc (depth (field_type f))) (concat (map snd D)))"
    by (simp only: set_map) (rule imageI)
  then show ?thesis unfolding field_depth_def by (rule fold_max_ge)
qed

lemma pending_mono: "dom c \<subseteq> dom c' \<Longrightarrow> pending D c' \<le> pending D c"
proof -
  assume sub: "dom c \<subseteq> dom c'"
  let ?names = "remdups (map fst D)"
  have "filter (\<lambda>name. c' name = None) ?names
          = filter (\<lambda>name. c' name = None) (filter (\<lambda>name. c name = None) ?names)"
    using sub by (auto intro!: filter_cong simp add: domIff subset_iff)
  then have "pending D c' = length (filter (\<lambda>name. c' name = None) (filter (\<lambda>name. c name = None) ?names))"
    by (simp only: pending_def)
  also have "\<dots> \<le> length (filter (\<lambda>name. c name = None) ?names)"
    by (rule length_filter_le)
  finally show ?thesis by (simp only: pending_def)
qed

lemma pending_reserved:
  assumes "map_of D name = Some fs" and "c name = None" and "dom (c(name \<mapsto> e)) \<subseteq> dom c'"
  shows "pending D c' < pending D c"
proof -
  let ?names = "remdups (map fst D)"
  let ?open = "filter (\<lambda>name. c name = None) ?names"
  from assms(1) have "(name, fs) \<in> set D" by (rule map_of_SomeD)
  then have "name \<in> set ?names" by force
  with assms(2) have mem: "name \<in> set ?open" by simp
  from assms(3) have taken: "\<not> c' name = None" by auto
  from assms(3) have sub: "dom c \<subseteq> dom c'" by auto
  have "filter (\<lambda>name. c' name = None) ?names = filter (\<lambda>name. c' name = None) ?open"
    using sub by (auto intro!: filter_cong simp add: domIff subset_iff)
  then have "pending D c' = length (filter (\<lambda>name. c' name = None) ?open)"
    by (simp only: pending_def)
  also have "\<dots> < length ?open"
    using mem taken by (rule length_filter_less)
  finally show ?thesis by (simp only: pending_def)
qed

lemma reflect_fields_total:
  assumes each: "\<And>f c1. f \<in> set fs \<Longrightarrow> dom c0 \<subseteq> dom c1 \<Longrightarrow> \<exists>r. resolve c1 (field_type f) = Some r"
    and mono: "\<And>c t s c'. resolve c t = Some (s, c') \<Longrightarrow> dom c \<subseteq> dom c'"
  shows "dom c0 \<subseteq> dom c \<Longrightarrow> \<exists>r. reflect_fields resolve fs ps req c = Some r"
  using each
proof (induction fs arbitrary: ps req c)
  case Nil
  show ?case by simp
next
  case (Cons f fs)
  have rest: "\<exists>r. reflect_fields resolve fs ps' req' c' = Some r" if "dom c0 \<subseteq> dom c'" for ps' req' c'
    using that Cons.prems(2) by (intro Cons.IH) auto
  show ?case
  proof (cases "tag_excluded f")
    case True
    with rest [OF Cons.prems(1)] show ?thesis by simp
  next
    case False
    from Cons.prems obtain s c1 where r: "resolve c (field_type f) = Some (s, c1)"
      by force
    from mono [OF r] Cons.prems(1) have "dom c0 \<subseteq> dom c1" by blast
    from rest [OF this] False r show ?thesis by simp
  qed
qed

lemma reflect_type_enough:
  "enough D c t \<le> n \<Longrightarrow> \<exists>r. reflect_type n D c t = Some r"
proof (induction n arbitrary: c t)
  case 0
  then show ?case by (simp add: enough_def)
next
  case (Suc n)
  have sub: "\<exists>r. reflect_type n D c u = Some r" if "depth u < depth t" for u
    using that Suc.prems by (intro Suc.IH) (simp add: enough_def)
  show ?case
  proof (cases t)
    case (TStruct name)
    show ?thesis
    proof (cases "c name = None \<and> map_of D name \<noteq> None")
      case True
      then obtain fs where fs: "map_of D name = Some fs" and fresh: "c name = None"
        by auto
      let ?c0 = "c(name \<mapsto> Placeholder)"
      have each: "\<exists>r. reflect_type n D c1 (field_type f) = Some r"
        if f: "f \<in> set (fields_of D name)" and c1: "dom ?c0 \<subseteq> dom c1" for f c1
      proof (rule Suc.IH)
        from f fs have "Suc (depth (field_type f)) \<le> field_depth D"
          by (simp add: fields_of_def declared_field_depth)
        moreover from pending_reserved [OF fs fresh c1]
        have "Suc (pending D c1) * Suc (field_depth D) \<le> pending D c * Suc (field_depth D)"
          by (intro mult_le_mono1) simp
        moreover from Suc.prems TStruct
        have "pending D c * Suc (field_depth D) \<le> n"
          by (simp add: enough_def)
        ultimately show "enough D c1 (field_type f) \<le> n"
          by (simp add: enough_def)
      qed
      have "\<exists>r. reflect_fields (reflect_type n D) (fields_of D name) [] [] ?c0 = Some r"
      proof (rule reflect_fields_total [where ?c0.0 = ?c0])
        show "\<exists>r. reflect_type n D c1 (field_type f) = Some r"
          if "f \<in> set (fields_of D name)" and "dom ?c0 \<subseteq> dom c1" for f c1
          using that by (rule each)
        show "dom c1 \<subseteq> dom c2" if "reflect_type n D c1 u = Some (s, c2)" for c1 u s c2
          using that by (rule reflect_type_mono)
        show "dom ?c0 \<subseteq> dom ?c0" by (rule subset_refl)
      qed
      with TStruct fresh show ?thesis by (auto split: option.splits)
    next
      case False
      then show ?thesis using TStruct by (auto simp add: fields_of_def)
    qed
  next
    case (TPtr u)
    with sub [of u] show ?thesis by simp
  next
    case (TSlice u)
    with sub [of u] show ?thesis by (auto split: option.splits)
  next
    case (TArray len u)
    with sub [of u] show ?thesis by (auto split: option.splits)
  next
    case (TMap k v)
    with sub [of v] show ?thesis by (auto split: option.splits)
  qed simp_all
qed

lemma generateTypeSchema_total: "\<exists>s c'. generateTypeSchema D c t = Some (s, c')"
  using reflect_type_enough [of D c t "enough D c t"] by (auto simp add: generateTypeSchema_def)

lemma reflect_fields_cong_Some:
  assumes "\<And>c t r. resolve c t = Some r \<Longrightarrow> resolve' c t = Some r"
  shows "reflect_fields resolve fs ps req c = Some r \<Longrightarrow> reflect_fields resolve' fs ps req c = Some r"
proof (induction fs arbitrary: ps req c)
  case Nil
  then show ?case by simp
next
  case (Cons f fs)
  show ?case
  proof (cases "tag_excluded f")
    case True
    with Cons show ?thesis by simp
  next
    case False
    with Cons.prems obtain s c1 where
      r: "resolve c (field_type f) = Some (s, c1)" and
      rest: "reflect_fields resolve fs (put_property (property_name f) s ps)
               (if optional_field f then req else req @ [property_name f]) c1 = Some r"
      by (auto split: option.splits)
    from assms [OF r] Cons.IH [OF rest] False show ?thesis by simp
  qed
qed

lemma reflect_type_more:
  "reflect_type n D c t = Some r \<Longrightarrow> n \<le> m \<Longrightarrow> reflect_type m D c t = Some r"
proof (induction n arbitrary: m c t r)
  case 0
  then show ?case by simp
next
  case (Suc n)
  from Suc.prems(2) obtain m' where m: "m = Suc m'" and le: "n \<le> m'"
    by (cases m) simp_all
  have IH: "reflect_type m' D c1 u = Some r1" if "reflect_type n D c1 u = Some r1" for c1 u r1
    using that le by (rule Suc.IH)
  show ?case
  proof (cases t)
    case (TStruct name)
    show ?thesis
    proof (cases "c name")
      case None
      with Suc.prems(1) TStruct obtain ps req c1 where
        fs: "reflect_fields (reflect_type n D) (fields_of D name) [] [] (c(name \<mapsto> Placeholder))
               = Some (ps, req, c1)"
        and r: "r = (SObject ps req, c1(name \<mapsto> Completed (SObject ps req)))"
        by (auto split: option.splits)
      have "reflect_fields (reflect_type m' D) (fields_of D name) [] [] (c(name \<mapsto> Placeholder))
               = Some (ps, req, c1)"
        using fs by (rule reflect_fields_cong_Some [rotated]) (rule IH)
      with None TStruct r show ?thesis by (simp add: m)
    next
      case (Some e)
      with Suc.prems(1) TStruct show ?thesis by (simp add: m)
    qed
  qed (use Suc.prems(1) in \<open>auto simp add: m split: option.splits if_splits dest: IH\<close>)
qed

lemma reflect_type_settled:
  assumes "enough D c t \<le> n"
  shows "reflect_type n D c t = generateTypeSchema D c t"
proof -
  from generateTypeSchema_total obtain s c' where "generateTypeSchema D c t = Some (s, c')"
    by blast
  then have "reflect_type (enough D c t) D c t = Some (s, c')"
    by (simp only: generateTypeSchema_def)
  from reflect_type_more [OF this assms] show ?thesis
    by (simp add: \<open>generateTypeSchema D c t = Some (s, c')\<close>)
qed

subsection \<open>Structs\<close>

lemma reflect_type_known:
  "reflect_type n D c t = Some (s, c') \<Longrightarrow> strip_pointers t = TStruct name \<Longrightarrow>
   c name \<noteq> None \<Longrightarrow> s = SRef name \<and> c' = c"
proof (induction n arbitrary: t)
  case 0
  then show ?case by simp
next
  case (Suc n)
  then show ?case by (cases t) auto
qed

lemma struct_first_encounter:
  assumes "c name = None"
  shows "\<exists>n ps req c1.
           reflect_fields (reflect_type n D) (fields_of D name) [] [] (c(name \<mapsto> Placeholder))
             = Some (ps, req, c1) \<and>
           generateTypeSchema D c (TStruct name)
             = Some (SObject ps req, c1(name \<mapsto> Completed (SObject ps req)))"
proof -
  obtain n where n: "enough D c (TStruct name) = Suc n"
    by (simp add: enough_def)
  from generateTypeSchema_total [of D c "TStruct name"] assms
  show ?thesis
    unfolding generateTypeSchema_def n by (auto split: option.splits)
qed

lemma struct_keys_required:
  assumes "reflect_fields resolve fs [] [] c = Some (ps, req, c1)"
  shows "map fst ps = first_occurrences (map property_name (kept_fields fs))"
    and "req = map property_name (required_fields fs)"
  using reflect_fields_names [OF assms] by (simp_all add: fold_insert_key)

lemma self_reference_property:
  assumes run: "reflect_fields (reflect_type n D) (pre @ f # post) ps req c = Some (ps', req', c')"
    and kept: "\<not> tag_excluded f"
    and self: "strip_pointers (field_type f) = TStruct name"
    and known: "c name \<noteq> None"
    and last: "property_name f \<notin> property_name ` set (kept_fields post)"
  shows "map_of ps' (property_name f) = Some (SRef name)"
proof -
  from run obtain ps1 req1 c1 where
    pre: "reflect_fields (reflect_type n D) pre ps req c = Some (ps1, req1, c1)" and
    rest: "reflect_fields (reflect_type n D) (f # post) ps1 req1 c1 = Some (ps', req', c')"
    by (auto simp add: reflect_fields_append split: option.splits)
  have "dom c \<subseteq> dom c1"
    using pre by (rule reflect_fields_mono [rotated]) (rule reflect_type_mono)
  with known have known1: "c1 name \<noteq> None" by auto
  from rest kept obtain s c2 where
    r: "reflect_type n D c1 (field_type f) = Some (s, c2)" and
    post: "reflect_fields (reflect_type n D) post (put_property (property_name f) s ps1)
             (if optional_field f then req1 else req1 @ [property_name f]) c2 = Some (ps', req', c')"
    by (auto split: option.splits)
  from reflect_type_known [OF r self known1] have s: "s = SRef name" by simp
  from reflect_fields_untouched [OF post last] s show ?thesis
    by (simp add: map_of_put_property)
qed

lemma circular_fields: "fields_of circular_decls ''CircularStruct'' = [name_field] @ self_field # []"
  by (simp add: fields_of_def circular_decls_def)

text \<open>
  C1: for every struct type without an entry in the cache, whether or not its fields lead back
  to it, the reflection returns, at the recursion bound \<open>enough\<close> and at every larger one
  with the same result, and what it returns is an object schema, which is also stored as the
  completed entry of the type. The properties of the schema are the names of the
  fields that are not excluded, in declaration order and each once, and every required name
  is one of them. The schema of a field whose type is
  the struct itself, behind any number of pointers, is a reference to the struct's named
  schema (when two fields share a property name, for the last of them).
\<close>

theorem cyclic_struct_reflection:
  assumes "c name = None"
  shows "\<exists>ps req c'.
           generateTypeSchema D c (TStruct name) = Some (SObject ps req, c') \<and>
           (\<forall>n \<ge> enough D c (TStruct name).
              reflect_type n D c (TStruct name) = Some (SObject ps req, c')) \<and>
           c' name = Some (Completed (SObject ps req)) \<and>
           map fst ps = first_occurrences (map property_name (kept_fields (fields_of D name))) \<and>
           fst ` set ps = property_name ` set (kept_fields (fields_of D name)) \<and>
           distinct (map fst ps) \<and> set req \<subseteq> fst ` set ps \<and>
           (\<forall>pre f post.
              fields_of D name = pre @ f # post \<and> \<not> tag_excluded f \<and>
              strip_pointers (field_type f) = TStruct name \<and>
              property_name f \<notin> property_name ` set (kept_fields post) \<longrightarrow>
              map_of ps (property_name f) = Some (SRef name))"
proof -
  from assms have "\<exists>n ps req c1.
           reflect_fields (reflect_type n D) (fields_of D name) [] [] (c(name \<mapsto> Placeholder))
             = Some (ps, req, c1) \<and>
           generateTypeSchema D c (TStruct name)
             = Some (SObject ps req, c1(name \<mapsto> Completed (SObject ps req)))"
    by (rule struct_first_encounter)
  then obtain n ps req c1 where
    run: "reflect_fields (reflect_type n D) (fields_of D name) [] [] (c(name \<mapsto> Placeholder))
            = Some (ps, req, c1)" and
    res: "generateTypeSchema D c (TStruct name)
            = Some (SObject ps req, c1(name \<mapsto> Completed (SObject ps req)))"
    by (elim exE conjE) (rule that)
  have keys: "map fst ps = first_occurrences (map property_name (kept_fields (fields_of D name)))"
    using run by (rule struct_keys_required)
  have "set (map fst ps) = set (map property_name (kept_fields (fields_of D name)))"
    unfolding keys by (rule set_first_occurrences)
  then have names: "fst ` set ps = property_name ` set (kept_fields (fields_of D name))"
    by simp
  have "req = map property_name (required_fields (fields_of D name))"
    using run by (rule struct_keys_required)
  with required_fields_kept [of "fields_of D name"] have required: "set req \<subseteq> fst ` set ps"
    unfolding names by auto
  have self: "map_of ps (property_name f) = Some (SRef name)"
    if "fields_of D name = pre @ f # post" "\<not> tag_excluded f"
       "strip_pointers (field_type f) = TStruct name"
       "property_name f \<notin> property_name ` set (kept_fields post)" for pre f post
  proof (rule self_reference_property)
    from run that(1)
    show "reflect_fields (reflect_type n D) (pre @ f # post) [] [] (c(name \<mapsto> Placeholder))
            = Some (ps, req, c1)"
      by simp
    show "(c(name \<mapsto> Placeholder)) name \<noteq> None" by simp
  qed (use that in simp_all)
  show ?thesis
  proof (intro exI conjI allI impI)
    show "generateTypeSchema D c (TStruct name)
            = Some (SObject ps req, c1(name \<mapsto> Completed (SObject ps req)))"
      by (rule res)
    show "reflect_type n D c (TStruct name)
            = Some (SObject ps req, c1(name \<mapsto> Completed (SObject ps req)))"
      if "enough D c (TStruct name) \<le> n" for n
      using that res by (simp add: reflect_type_settled)
    show "(c1(name \<mapsto> Completed (SObject ps req))) name = Some (Completed (SObject ps req))"
      by simp
    show "map fst ps = first_occurrences (map property_name (kept_fields (fields_of D name)))"
      by (rule keys)
    show "fst ` set ps = property_name ` set (kept_fields (fields_of D name))"
      by (rule names)
    show "distinct (map fst ps)"
      unfolding keys by (rule distinct_first_occurrences)
    show "set req \<subseteq> fst ` set ps"
      by (rule required)
    show "map_of ps (property_name f) = Some (SRef name)"
      if "fields_of D name = pre @ f # post \<and> \<not> tag_excluded f \<and>
          strip_pointers (field_type f) = TStruct name \<and>
          property_name f \<notin> property_name ` set (kept_fields post)" for pre f post
      using that by (intro self [of pre f post]) simp_all
  qed
qed

theorem cyclic_struct_reflection_witness:
  "\<exists>ps req c'.
     generateTypeSchema circular_decls Map.empty (TStruct ''CircularStruct'')
       = Some (SObject ps req, c') \<and>
     map fst ps = [''name'', ''self''] \<and>
     map_of ps ''self'' = Some (SRef ''CircularStruct'')"
proof -
  note cyclic_struct_reflection [of Map.empty "''CircularStruct''" circular_decls, OF refl]
  then obtain ps req c' where
    res: "generateTypeSchema circular_decls Map.empty (TStruct ''CircularStruct'')
            = Some (SObject ps req, c')" and
    keys: "map fst ps = first_occurrences
             (map property_name (kept_fields (fields_of circular_decls ''CircularStruct'')))" and
    self: "\<forall>pre f post.
             fields_of circular_decls ''CircularStruct'' = pre @ f # post \<and> \<not> tag_excluded f \<and>
             strip_pointers (field_type f) = TStruct ''CircularStruct'' \<and>
             property_name f \<notin> property_name ` set (kept_fields post) \<longrightarrow>
             map_of ps (property_name f) = Some (SRef ''CircularStruct'')"
    by (elim exE conjE) (rule that)
  from keys have k: "map fst ps = [''name'', ''self'']"
    by (simp add: circular_fields kept_fields_def property_name_def name_field_def self_field_def)
  from self [rule_format, of "[name_field]" self_field "[]"]
  have v: "map_of ps ''self'' = Some (SRef ''CircularStruct'')"
    by (simp add: circular_fields kept_fields_def property_name_def self_field_def)
  from res k v show ?thesis by (intro exI conjI)
qed

text \<open>
  C5: for every struct type without an entry in the cache, the properties of its schema are
  the property names of the fields that are not excluded, in declaration order, and the
  required names are the property names of the fields that are neither excluded nor marked
  omit-if-empty nor of pointer type, in declaration order. The property name of a field is
  its explicit annotation name when it has one and its declared name otherwise.
\<close>

theorem struct_fields_reflection:
  assumes "c name = None"
  shows "\<exists>ps req c'.
           generateTypeSchema D c (TStruct name) = Some (SObject ps req, c') \<and>
           map fst ps =
             first_occurrences (map property_name
               (filter (\<lambda>f. \<not> tag_excluded f) (fields_of D name))) \<and>
           req =
             map property_name
               (filter (\<lambda>f. \<not> tag_excluded f \<and> \<not> tag_omitempty f \<and> \<not> is_pointer (field_type f))
                  (fields_of D name)) \<and>
           (\<forall>f. property_name f = (case tag_name f of Some ext \<Rightarrow> ext | None \<Rightarrow> field_name f))"
proof -
  from assms have "\<exists>n ps req c1.
           reflect_fields (reflect_type n D) (fields_of D name) [] [] (c(name \<mapsto> Placeholder))
             = Some (ps, req, c1) \<and>
           generateTypeSchema D c (TStruct name)
             = Some (SObject ps req, c1(name \<mapsto> Completed (SObject ps req)))"
    by (rule struct_first_encounter)
  then obtain n ps req c1 where
    run: "reflect_fields (reflect_type n D) (fields_of D name) [] [] (c(name \<mapsto> Placeholder))
            = Some (ps, req, c1)" and
    res: "generateTypeSchema D c (TStruct name)
            = Some (SObject ps req, c1(name \<mapsto> Completed (SObject ps req)))"
    by (elim exE conjE) (rule that)
  from struct_keys_required [OF run] res show ?thesis
    by (simp add: kept_fields_def required_fields_def property_name_def)
qed

theorem struct_fields_reflection_witness:
  "\<exists>ps c'.
     generateTypeSchema tagged_decls Map.empty (TStruct ''TaggedStruct'')
       = Some (SObject ps [''included_field'', ''required_field'', ''NoTagField''], c') \<and>
     map fst ps = [''included_field'', ''omit_empty'', ''required_field'', ''NoTagField'']"
proof -
  note struct_fields_reflection [of Map.empty "''TaggedStruct''" tagged_decls, OF refl]
  then obtain ps req c' where
    res: "generateTypeSchema tagged_decls Map.empty (TStruct ''TaggedStruct'')
            = Some (SObject ps req, c')" and
    keys: "map fst ps = first_occurrences (map property_name
             (filter (\<lambda>f. \<not> tag_excluded f) (fields_of tagged_decls ''TaggedStruct'')))" and
    req: "req = map property_name
             (filter (\<lambda>f. \<not> tag_excluded f \<and> \<not> tag_omitempty f \<and> \<not> is_pointer (field_type f))
                (fields_of tagged_decls ''TaggedStruct''))"
    by (elim exE conjE) (rule that)
  from keys have k: "map fst ps = [''included_field'', ''omit_empty'', ''required_field'', ''NoTagField'']"
    by (simp add: fields_of_def tagged_decls_def property_name_def)
  from req have r: "req = [''included_field'', ''required_field'', ''NoTagField'']"
    by (simp add: fields_of_def tagged_decls_def property_name_def)
  from res k show ?thesis unfolding r by (intro exI conjI)
qed

subsection \<open>Other types\<close>

lemma enough_wrapped:
  "enough D c (TPtr t) = Suc (enough D c t)"
  "enough D c (TSlice t) = Suc (enough D c t)"
  "enough D c (TArray len t) = Suc (enough D c t)"
  by (simp_all add: enough_def)

lemma generateTypeSchema_leaf:
  "generateTypeSchema D c TTime = Some (SDateTime, c)"
  "generateTypeSchema D c (TInt ik) = Some (SInteger, c)"
  "generateTypeSchema D c (TFloat fk) = Some (SNumber, c)"
  "generateTypeSchema D c TBool = Some (SBoolean, c)"
  "generateTypeSchema D c TString = Some (SString, c)"
  "generateTypeSchema D c TInterface = Some (SOpaque, c)"
  "generateTypeSchema D c (TOther kind) = Some (SOpaque, c)"
  "generateTypeSchema D c (TMap TString TInterface) = Some (SMapAny, c)"
  "k \<noteq> TString \<Longrightarrow> generateTypeSchema D c (TMap k v) = Some (SOpaque, c)"
  by (simp_all add: generateTypeSchema_def enough_def)

text \<open>
  C6: a pointer has the schema of its pointee; the temporal type is a string with the
  date-time format; every integer kind is an integer, every float kind a number, a boolean a
  boolean and a string a string; a slice or an array is an array whose items are the schema of
  the element type; a map from strings to the empty interface is an object with any
  additional properties; an interface, a kind without a rule and a map whose key is not a
  string are opaque objects. Reflection returns a schema for every type, the same at
  every recursion bound from \<open>enough\<close> on.
\<close>

theorem non_struct_reflection:
  "generateTypeSchema D c (TPtr t) = generateTypeSchema D c t \<and>
   generateTypeSchema D c TTime = Some (SDateTime, c) \<and>
   generateTypeSchema D c (TInt ik) = Some (SInteger, c) \<and>
   generateTypeSchema D c (TFloat fk) = Some (SNumber, c) \<and>
   generateTypeSchema D c TBool = Some (SBoolean, c) \<and>
   generateTypeSchema D c TString = Some (SString, c) \<and>
   (\<exists>items c'. generateTypeSchema D c t = Some (items, c') \<and>
      generateTypeSchema D c (TSlice t) = Some (SArray items, c') \<and>
      generateTypeSchema D c (TArray len t) = Some (SArray items, c')) \<and>
   generateTypeSchema D c (TMap TString TInterface) = Some (SMapAny, c) \<and>
   generateTypeSchema D c TInterface = Some (SOpaque, c) \<and>
   generateTypeSchema D c (TOther kind) = Some (SOpaque, c) \<and>
   (k \<noteq> TString \<longrightarrow> generateTypeSchema D c (TMap k v) = Some (SOpaque, c)) \<and>
   (\<exists>s c'. generateTypeSchema D c u = Some (s, c') \<and>
      (\<forall>n \<ge> enough D c u. reflect_type n D c u = Some (s, c')))"
proof -
  have ptr: "generateTypeSchema D c (TPtr t) = generateTypeSchema D c t"
    by (simp add: generateTypeSchema_def enough_wrapped)
  obtain items c' where items: "generateTypeSchema D c t = Some (items, c')"
    using generateTypeSchema_total by blast
  then have seq: "generateTypeSchema D c (TSlice t) = Some (SArray items, c')"
    "generateTypeSchema D c (TArray len t) = Some (SArray items, c')"
    by (simp_all add: generateTypeSchema_def enough_wrapped)
  obtain s c'' where u: "generateTypeSchema D c u = Some (s, c'')"
    using generateTypeSchema_total by blast
  then have "\<forall>n \<ge> enough D c u. reflect_type n D c u = Some (s, c'')"
    by (simp add: reflect_type_settled)
  with u have total: "\<exists>s c'. generateTypeSchema D c u = Some (s, c') \<and>
      (\<forall>n \<ge> enough D c u. reflect_type n D c u = Some (s, c'))"
    by blast
  from ptr items seq total show ?thesis
    by (simp add: generateTypeSchema_leaf)
qed

theorem non_struct_reflection_witness:
  "generateTypeSchema [] Map.empty (TPtr TString) = Some (SString, Map.empty) \<and>
   generateTypeSchema [] Map.empty (TSlice TString) = Some (SArray SString, Map.empty) \<and>
   generateTypeSchema [] Map.empty (TMap (TInt KInt8) TString) = Some (SOpaque, Map.empty)"
  using non_struct_reflection [of "[]" Map.empty TString KInt8 KFloat64 0 "[]" "TInt KInt8" TString TBool]
  by auto

section \<open>Properties of the generator run\<close>

text \<open>
  C4: \<^verbatim>\<open>GenerateSpec\<close> on an empty route list fails, and the text of the error contains
  \<open>no routes discovered\<close>. It fails for no other route list: every non-empty list yields a
  document.
\<close>

theorem GenerateSpec_no_routes:
  "GenerateSpec marshal tn D [] = Inl NoRoutesDiscovered \<and>
   Contains (error_text NoRoutesDiscovered) ''no routes discovered'' \<and>
   ((\<exists>e. GenerateSpec marshal tn D registered = Inl e) \<longleftrightarrow> registered = []) \<and>
   (registered \<noteq> [] \<longrightarrow> (\<exists>document. GenerateSpec marshal tn D registered = Inr document))"
  by (simp add: GenerateSpec_def)

theorem GenerateSpec_no_routes_witness:
  "[users_get, users_post, health_get] \<noteq> [] \<and>
   (\<exists>document. GenerateSpec (\<lambda>spec. Inr (''openapi: '' @ OpenAPI spec)) example_namer []
                  [users_get, users_post, health_get] = Inr document) \<and>
   GenerateSpec (\<lambda>spec. Inr (''openapi: '' @ OpenAPI spec)) example_namer [] [] = Inl NoRoutesDiscovered"
  using GenerateSpec_no_routes [of "\<lambda>spec. Inr (''openapi: '' @ OpenAPI spec)" example_namer "[]"
          "[users_get, users_post, health_get]"]
  by simp

end
